theory Spec2Isabelle
  imports Main "HOL-Library.Multiset" "HOL-Library.Char_ord" "HOL-Library.List_Lexorder"
begin

section \<open>The relationship graph of \<^verbatim>\<open>src/index.js\<close>\<close>

text \<open>
  The widget takes an array of child records, checks it (\<^verbatim>\<open>verifyJson\<close>), sorts it by
  parent, gives every child a grid cell (\<^verbatim>\<open>row\<close>, \<^verbatim>\<open>index\<close>) and draws one label per
  parent and one block per child.

  A record of the array is a JavaScript object. Its bookkeeping fields are typed as the
  data model types them: \<^verbatim>\<open>parent\<close> a string, \<^verbatim>\<open>color\<close>, \<^verbatim>\<open>parentColor\<close>, \<^verbatim>\<open>row\<close>
  and \<^verbatim>\<open>index\<close> whole numbers; \<open>None\<close> is JavaScript's \<^verbatim>\<open>undefined\<close> (the field is
  absent). The remaining display fields are kept, in insertion order, in \<open>display\<close>.
  The array is a list of such values: no object occurs twice in it, as in an array
  that was parsed from JSON text. Strings are compared as JavaScript compares them,
  code unit by code unit, a proper prefix first.
\<close>

record child =
  parent :: "string option"
  color :: "int option"
  parentColor :: "int option"
  row :: "int option"
  index :: "int option"
  display :: "(string \<times> string) list"

subsection \<open>String.prototype.abbreviate\<close>

definition abbreviate :: "string \<Rightarrow> string" where
  "abbreviate this = (if length this \<ge> 25 then take 25 this @ ''...'' else this)"

subsection \<open>The constructor's configuration\<close>

text \<open>
  \<^verbatim>\<open>a || b\<close> is \<^verbatim>\<open>a\<close> when \<^verbatim>\<open>a\<close> is truthy and \<^verbatim>\<open>b\<close> otherwise. An argument that
  the caller leaves out is \<^verbatim>\<open>undefined\<close>, here \<open>None\<close>; \<^verbatim>\<open>false\<close> and \<^verbatim>\<open>0\<close> are
  falsy as well.
\<close>

definition or_bool :: "bool option \<Rightarrow> bool \<Rightarrow> bool" where
  "or_bool a b = (case a of Some True \<Rightarrow> True | _ \<Rightarrow> b)"

definition or_int :: "int option \<Rightarrow> int \<Rightarrow> int" where
  "or_int a b = (case a of None \<Rightarrow> b | Some n \<Rightarrow> if n = 0 then b else n)"

record config =
  blockSize :: int
  showTooltips :: bool
  maxChildCount :: int
  showKeys :: bool

definition RelationshipGraph :: "bool option \<Rightarrow> int option \<Rightarrow> config" where
  "RelationshipGraph showTooltips' maxChildCount' =
     \<lparr> blockSize = 24,
       showTooltips = or_bool showTooltips' True,
       maxChildCount = or_int maxChildCount' 0,
       showKeys = True \<rparr>"

text \<open>
  \<^verbatim>\<open>this.tip\<close>, given by its direction: created and placed west when
  \<^verbatim>\<open>this.config.showTooltips\<close> is truthy, \<^verbatim>\<open>null\<close> (\<open>None\<close>) otherwise.
\<close>

definition tip :: "config \<Rightarrow> string option" where
  "tip cfg = (if showTooltips cfg then Some ''w'' else None)"

subsection \<open>verifyJson\<close>

datatype error =
    EmptyInput            \<comment> \<open>\<^verbatim>\<open>'JSON cannot be empty.'\<close>\<close>
  | MissingParent         \<comment> \<open>\<^verbatim>\<open>'Child does not have a parent.'\<close>\<close>
  | InvalidColor          \<comment> \<open>\<^verbatim>\<open>'Child color is unsupported.'\<close>\<close>
  | InvalidParentColor    \<comment> \<open>\<^verbatim>\<open>'Parent color is unsupported.'\<close>\<close>

text \<open>The body of the \<^verbatim>\<open>forEach\<close> callback: \<open>Some e\<close> when it throws \<open>e\<close>.\<close>

definition verifyElement :: "child \<Rightarrow> error option" where
  "verifyElement element =
     (if parent element = None then Some MissingParent
      else if (case color element of None \<Rightarrow> True | Some c \<Rightarrow> c > 3 \<or> c < 0)
        then Some InvalidColor
      else if (case parentColor element of None \<Rightarrow> True | Some c \<Rightarrow> c > 4 \<or> c < 0)
        then Some InvalidParentColor
      else None)"

fun verifyEach :: "child list \<Rightarrow> error option" where
  "verifyEach [] = None"
| "verifyEach (element # rest) =
     (case verifyElement element of Some e \<Rightarrow> Some e | None \<Rightarrow> verifyEach rest)"

text \<open>The argument is \<open>None\<close> when the caller passes no array (\<^verbatim>\<open>undefined\<close>).\<close>

definition verifyJson :: "child list option \<Rightarrow> error + bool" where
  "verifyJson json =
     (case json of
        None \<Rightarrow> Inl EmptyInput
      | Some js \<Rightarrow>
          if length js = 0 then Inl EmptyInput
          else (case verifyEach js of Some e \<Rightarrow> Inl e | None \<Rightarrow> Inr True))"

subsection \<open>The sort by parent\<close>

text \<open>
  \<^verbatim>\<open><\<close> and \<^verbatim>\<open>>\<close> on two strings are the lexicographic order; with \<^verbatim>\<open>undefined\<close> on
  either side both are false.
\<close>

definition js_less :: "string option \<Rightarrow> string option \<Rightarrow> bool" where
  "js_less a b = (case (a, b) of (Some x, Some y) \<Rightarrow> x < y | _ \<Rightarrow> False)"

definition compareParent :: "child \<Rightarrow> child \<Rightarrow> int" where
  "compareParent child1 child2 =
     (if js_less (parent child1) (parent child2) then - 1
      else if js_less (parent child2) (parent child1) then 1
      else 0)"

text \<open>
  \<^verbatim>\<open>Array.prototype.sort\<close> with a comparator, as a stable insertion sort: an element
  goes in front of the first one it does not compare greater than.
\<close>

fun insertBy :: "('a \<Rightarrow> 'a \<Rightarrow> int) \<Rightarrow> 'a \<Rightarrow> 'a list \<Rightarrow> 'a list" where
  "insertBy cmp x [] = [x]"
| "insertBy cmp x (y # ys) = (if cmp x y \<le> 0 then x # y # ys else y # insertBy cmp x ys)"

definition sortBy :: "('a \<Rightarrow> 'a \<Rightarrow> int) \<Rightarrow> 'a list \<Rightarrow> 'a list" where
  "sortBy cmp xs = foldr (insertBy cmp) xs []"

subsection \<open>The row and column of every child\<close>

definition calculatedMaxChildren :: "config \<Rightarrow> int \<Rightarrow> int" where
  \<comment> \<open>\<open>clientWidth\<close> is the width of the element that holds the graph\<close>
  "calculatedMaxChildren cfg clientWidth =
     (if maxChildCount cfg = 0 then (clientWidth - 75) div blockSize cfg
      else maxChildCount cfg)"

text \<open>
  The second \<^verbatim>\<open>forEach\<close> of \<^verbatim>\<open>generate\<close>, with its three captured variables as
  arguments: \<open>rw\<close> is \<^verbatim>\<open>row\<close>, \<open>ix\<close> is \<^verbatim>\<open>index\<close>, and \<open>previousParent\<close> is
  \<open>None\<close> while it is \<^verbatim>\<open>null\<close>. The second case is the \<^verbatim>\<open>else\<close> branch
  on a full row: \<^verbatim>\<open>index\<close> goes back to 1 and \<^verbatim>\<open>row\<close> grows by one before the
  element takes them, and \<^verbatim>\<open>index++\<close> leaves 2.
\<close>

fun assignCells :: "int \<Rightarrow> int \<Rightarrow> int \<Rightarrow> string option option \<Rightarrow> child list \<Rightarrow> child list" where
  "assignCells cmc rw ix previousParent [] = []"
| "assignCells cmc rw ix previousParent (element # rest) =
     (if previousParent \<noteq> None \<and> previousParent \<noteq> Some (parent element) then
        element\<lparr>row := Some (rw + 1), index := Some 1\<rparr>
          # assignCells cmc (rw + 1) 2 (Some (parent element)) rest
      else if ix = cmc + 1 then
        element\<lparr>row := Some (rw + 1), index := Some 1\<rparr>
          # assignCells cmc (rw + 1) 2 (Some (parent element)) rest
      else
        element\<lparr>row := Some rw, index := Some ix\<rparr>
          # assignCells cmc rw (ix + 1) (Some (parent element)) rest)"

text \<open>
  The sort followed by the assignment: what \<^verbatim>\<open>generate\<close> leaves in the caller's
  array.
\<close>

definition layout :: "int \<Rightarrow> child list \<Rightarrow> child list" where
  "layout cmc json = assignCells cmc 1 1 None (sortBy compareParent json)"

subsection \<open>Object keys, parent counts and the longest label\<close>

text \<open>
  An object whose keys are strings is an association list in insertion order.
  \<^verbatim>\<open>Object.keys\<close> lists the keys that are array indices first, in ascending numeric
  order, and the other keys after them in insertion order.
\<close>

definition isDigit :: "char \<Rightarrow> bool" where
  "isDigit c = (CHR ''0'' \<le> c \<and> c \<le> CHR ''9'')"

definition digitsValue :: "string \<Rightarrow> nat" where
  "digitsValue s = foldl (\<lambda>n c. 10 * n + (of_char c - 48)) 0 s"

definition isArrayIndex :: "string \<Rightarrow> bool" where
  "isArrayIndex s =
     (s \<noteq> [] \<and> list_all isDigit s \<and> (length s = 1 \<or> hd s \<noteq> CHR ''0'')
      \<and> digitsValue s < 2 ^ 32 - 1)"

definition objectKeys :: "(string \<times> 'v) list \<Rightarrow> string list" where
  "objectKeys obj =
     sort_key digitsValue (filter isArrayIndex (map fst obj))
       @ filter (\<lambda>k. \<not> isArrayIndex k) (map fst obj)"

definition containsKey :: "(string \<times> 'v) list \<Rightarrow> string \<Rightarrow> bool" where
  "containsKey this key = (key \<in> set (objectKeys this))"

definition contains :: "'a list \<Rightarrow> 'a \<Rightarrow> bool" where
  "contains this key = (key \<in> set this)"

text \<open>
  The first \<^verbatim>\<open>forEach\<close> of \<^verbatim>\<open>generate\<close>; the result is \<open>None\<close> when it throws a
  \<^verbatim>\<open>TypeError\<close>. \<^verbatim>\<open>parentSizes\<close> is an ordinary object, and its method
  \<^verbatim>\<open>containsKey\<close> is found on \<^verbatim>\<open>Object.prototype\<close>:
  \<^item> once a parent named \<^verbatim>\<open>containsKey\<close> has been stored, \<^verbatim>\<open>parentSizes.containsKey\<close> is
    that own property, a number, and the next call of it throws;
  \<^item> \<^verbatim>\<open>parentSizes['__proto__'] = 1\<close> goes to the setter of \<^verbatim>\<open>Object.prototype\<close>,
    which ignores a number: no own property is made, and the name is pushed to
    \<^verbatim>\<open>parents\<close> again for every such child;
  \<^item> \<^verbatim>\<open>parent.abbreviate()\<close> on an \<^verbatim>\<open>undefined\<close> parent throws.
\<close>

fun countParents ::
  "child list \<Rightarrow> string list \<Rightarrow> (string \<times> nat) list \<Rightarrow> (string list \<times> (string \<times> nat) list) option"
where
  "countParents [] parents parentSizes = Some (parents, parentSizes)"
| "countParents (element # rest) parents parentSizes =
     (if map_of parentSizes ''containsKey'' \<noteq> None then None
      else
        (case parent element of
           None \<Rightarrow> None
         | Some p \<Rightarrow>
             if containsKey parentSizes p then
               countParents rest parents
                 (map (\<lambda>(k, n). if k = p then (k, n + 1) else (k, n)) parentSizes)
             else if p = ''__proto__'' then
               countParents rest (parents @ [abbreviate p]) parentSizes
             else
               countParents rest (parents @ [abbreviate p]) (parentSizes @ [(p, 1)])))"

text \<open>
  \<^verbatim>\<open>parentSizes[Object.keys(parentSizes)[index]]\<close>; \<open>None\<close> is \<^verbatim>\<open>undefined\<close>. Past
  the last key the index expression is \<^verbatim>\<open>undefined\<close>, and the property read is the
  one named \<^verbatim>\<open>undefined\<close>.
\<close>

definition sizeAt :: "(string \<times> nat) list \<Rightarrow> nat \<Rightarrow> nat option" where
  "sizeAt parentSizes i =
     (if i < length (objectKeys parentSizes) then map_of parentSizes (objectKeys parentSizes ! i)
      else map_of parentSizes ''undefined'')"

fun showNat :: "nat \<Rightarrow> string" where
  "showNat n =
     (if n < 10 then [char_of (48 + n)] else showNat (n div 10) @ [char_of (48 + n mod 10)])"

definition showSize :: "nat option \<Rightarrow> string" where
  "showSize v = (case v of None \<Rightarrow> ''undefined'' | Some n \<Rightarrow> showNat n)"

fun longestLabel :: "(string \<times> nat) list \<Rightarrow> string list \<Rightarrow> nat \<Rightarrow> string \<Rightarrow> string" where
  "longestLabel parentSizes [] i longest = longest"
| "longestLabel parentSizes (element # rest) i longest =
     (let current = element @ ''   ('' @ showSize (sizeAt parentSizes i) @ '')   '' in
      longestLabel parentSizes rest (i + 1)
        (if length current > length longest then current else longest))"

subsection \<open>Drawing: coordinates and the size of the canvas\<close>

text \<open>
  Pixel values are whole numbers here; the width of the longest label comes from the
  canvas's \<^verbatim>\<open>measureText\<close> and is a parameter. A value that JavaScript computes as
  \<^verbatim>\<open>NaN\<close> is \<open>None\<close>; every comparison with it is false.
\<close>

definition ceilDiv :: "int \<Rightarrow> int \<Rightarrow> int" where
  \<comment> \<open>\<^verbatim>\<open>Math.ceil(a / b)\<close> for \<open>b \<noteq> 0\<close>\<close>
  "ceilDiv a b = - ((- a) div b)"

text \<open>
  The \<^verbatim>\<open>y\<close> of the label of the parent at position \<open>i\<close>. With
  \<open>calculatedMaxChildren = 0\<close> the quotient is infinite and its product with zero is
  \<^verbatim>\<open>NaN\<close>.
\<close>

definition labelY :: "config \<Rightarrow> int \<Rightarrow> (string \<times> nat) list \<Rightarrow> nat \<Rightarrow> int option" where
  "labelY cfg cmc parentSizes i =
     (if i = 0 then Some 0
      else if cmc = 0 \<or> (\<exists>j \<in> set [0..<i]. sizeAt parentSizes j = None) then None
      else Some (ceilDiv
                  (sum_list (map (\<lambda>j. ceilDiv (int (the (sizeAt parentSizes j))) cmc * cmc)
                                 (rev [0..<i])))
                  cmc * blockSize cfg))"

text \<open>The labels: \<^verbatim>\<open>maxHeight = (y > maxHeight) ? y : maxHeight\<close>, skipped at position 0.\<close>

fun labelHeights :: "config \<Rightarrow> int \<Rightarrow> (string \<times> nat) list \<Rightarrow> nat list \<Rightarrow> int \<Rightarrow> int" where
  "labelHeights cfg cmc parentSizes [] maxHeight = maxHeight"
| "labelHeights cfg cmc parentSizes (i # rest) maxHeight =
     labelHeights cfg cmc parentSizes rest
       (if i = 0 then maxHeight
        else (case labelY cfg cmc parentSizes i of
                None \<Rightarrow> maxHeight
              | Some y \<Rightarrow> if y > maxHeight then y else maxHeight))"

definition blockX :: "config \<Rightarrow> int \<Rightarrow> child \<Rightarrow> int option" where
  "blockX cfg width obj =
     (case index obj of None \<Rightarrow> None | Some i \<Rightarrow> Some (width + (i - 1) * blockSize cfg))"

definition blockY :: "config \<Rightarrow> child \<Rightarrow> int option" where
  "blockY cfg obj =
     (case row obj of None \<Rightarrow> None | Some r \<Rightarrow> Some ((r - 1) * blockSize cfg))"

text \<open>
  \<^verbatim>\<open>maxWidth += ((x + blockSize) > maxWidth) ? (x + blockSize) : 0\<close>, and the same
  statement for \<^verbatim>\<open>maxHeight\<close>.
\<close>

definition grow :: "config \<Rightarrow> int \<Rightarrow> int option \<Rightarrow> int" where
  "grow cfg m v =
     (case v of
        None \<Rightarrow> m
      | Some x \<Rightarrow> m + (if x + blockSize cfg > m then x + blockSize cfg else 0))"

definition blocksWidth :: "config \<Rightarrow> int \<Rightarrow> child list \<Rightarrow> int \<Rightarrow> int" where
  "blocksWidth cfg width children maxWidth =
     foldl (\<lambda>m obj. grow cfg m (blockX cfg width obj)) maxWidth children"

definition blocksHeight :: "config \<Rightarrow> child list \<Rightarrow> int \<Rightarrow> int" where
  "blocksHeight cfg children maxHeight =
     foldl (\<lambda>m obj. grow cfg m (blockY cfg obj)) maxHeight children"

subsection \<open>generate\<close>

record graph =
  records :: "child list"     \<comment> \<open>the caller's array when \<^verbatim>\<open>generate\<close> returns\<close>
  maxWidth :: int
  maxHeight :: int
  svgWidth :: int
  svgHeight :: int

text \<open>
  \<^verbatim>\<open>generate\<close> works on the caller's array: \<^verbatim>\<open>sort\<close> reorders it in place and
  the second loop writes \<^verbatim>\<open>row\<close> and \<^verbatim>\<open>index\<close> into its records, so \<open>records\<close>
  is that array after the call. An error of \<^verbatim>\<open>verifyJson\<close> passes through, and so
  does a \<^verbatim>\<open>TypeError\<close> of the first loop, which stops \<^verbatim>\<open>generate\<close> before any
  row is assigned. The branch for an absent array is behind the check and is never
  taken. The host page (the selection, its width, \<^verbatim>\<open>d3\<close>) is taken to be in place.
\<close>

datatype failure = Thrown error | TypeError

definition generate ::
  "config \<Rightarrow> int \<Rightarrow> (string \<Rightarrow> int) \<Rightarrow> child list option \<Rightarrow> failure + graph"
where
  "generate cfg clientWidth measureText json =
     (case verifyJson json of
        Inl e \<Rightarrow> Inl (Thrown e)
      | Inr ok \<Rightarrow>
          (case json of
             None \<Rightarrow> Inl TypeError
           | Some js \<Rightarrow>
               let sorted = sortBy compareParent js in
               (case countParents sorted [] [] of
                  None \<Rightarrow> Inl TypeError
                | Some (parents, parentSizes) \<Rightarrow>
                    let longest = longestLabel parentSizes parents 0 [];
                        cmc = calculatedMaxChildren cfg clientWidth;
                        placed = assignCells cmc 1 1 None sorted;
                        h0 = labelHeights cfg cmc parentSizes [0..<length parents] 0;
                        width = measureText (longest @ ''    '');
                        w = blocksWidth cfg width placed 0;
                        h = blocksHeight cfg placed h0
                    in Inr \<lparr> records = placed, maxWidth = w, maxHeight = h,
                             svgWidth = w + 15, svgHeight = h + 15 \<rparr>)))"

subsection \<open>The tooltip\<close>

text \<open>
  The object shown in a tooltip is given by its own properties in insertion order,
  each with the text its value is written as. Keys are ASCII: \<^verbatim>\<open>toUpperCase\<close> maps
  the letters a to z and leaves every other character as it is.
\<close>

definition toUpperCaseChar :: "char \<Rightarrow> char" where
  "toUpperCaseChar c =
     (if CHR ''a'' \<le> c \<and> c \<le> CHR ''z'' then char_of (of_char c - (32::nat)) else c)"

definition toUpperCase :: "string \<Rightarrow> string" where
  "toUpperCase s = map toUpperCaseChar s"

definition hiddenKeys :: "string list" where
  "hiddenKeys = [''ROW'', ''INDEX'', ''COLOR'', ''PARENTCOLOR'', ''PARENT'']"

definition getProperty :: "(string \<times> string) list \<Rightarrow> string \<Rightarrow> string" where
  "getProperty obj key = (case map_of obj key of None \<Rightarrow> ''undefined'' | Some v \<Rightarrow> v)"

text \<open>The table: one list of cells per \<^verbatim>\<open>tr\<close>, in the order the rows are appended.\<close>

definition html :: "config \<Rightarrow> (string \<times> string) list \<Rightarrow> string list list" where
  "html cfg obj =
     concat (map (\<lambda>element.
        if \<not> contains hiddenKeys (toUpperCase element) then
          [(if showKeys cfg then [element] else []) @ [getProperty obj element]]
        else [])
      (objectKeys obj))"

text \<open>
  The wording of the specification, for comparison: a field is internal when its name
  is one of five names, letter case ignored.
\<close>

definition toLowerCaseChar :: "char \<Rightarrow> char" where
  "toLowerCaseChar c =
     (if CHR ''A'' \<le> c \<and> c \<le> CHR ''Z'' then char_of (of_char c + (32::nat)) else c)"

definition equalIgnoringCase :: "string \<Rightarrow> string \<Rightarrow> bool" where
  "equalIgnoringCase a b = (map toLowerCaseChar a = map toLowerCaseChar b)"

definition internalFields :: "string list" where
  "internalFields = [''row'', ''index'', ''color'', ''parentColor'', ''parent'']"

definition isInternal :: "string \<Rightarrow> bool" where
  "isInternal key = (\<exists>f \<in> set internalFields. equalIgnoringCase key f)"

subsection \<open>Notions used in the statements\<close>

text \<open>
  How the cell of a child follows from the cell of the child before it in the array:
  a new row at column 1 when the parent changes or the row is full, the next column of
  the same row otherwise.
\<close>

definition nextCell :: "int \<Rightarrow> child \<Rightarrow> child \<Rightarrow> bool" where
  "nextCell cmc a b =
     (\<exists>ra ia rb ib. row a = Some ra \<and> index a = Some ia \<and> row b = Some rb \<and> index b = Some ib \<and>
        (if parent a \<noteq> parent b \<or> ia = cmc then rb = ra + 1 \<and> ib = 1
         else rb = ra \<and> ib = ia + 1))"

definition chain :: "int \<Rightarrow> child list \<Rightarrow> bool" where
  "chain cmc out = (\<forall>i. Suc i < length out \<longrightarrow> nextCell cmc (out ! i) (out ! Suc i))"

text \<open>
  The four conditions of the validator in the words of the specification: the sequence
  is absent or has zero length; a record lacks a parent; its color is absent or outside
  0..3; its parentColor is absent or outside 0..4.
\<close>

definition recordsOf :: "child list option \<Rightarrow> child list" where
  "recordsOf json = (case json of None \<Rightarrow> [] | Some js \<Rightarrow> js)"

definition emptyInput :: "child list option \<Rightarrow> bool" where
  "emptyInput json = (json = None \<or> length (recordsOf json) = 0)"

definition lacksParent :: "child \<Rightarrow> bool" where
  "lacksParent c = (parent c = None)"

definition colorUnsupported :: "child \<Rightarrow> bool" where
  "colorUnsupported c = (case color c of None \<Rightarrow> True | Some v \<Rightarrow> v < 0 \<or> 3 < v)"

definition parentColorUnsupported :: "child \<Rightarrow> bool" where
  "parentColorUnsupported c = (case parentColor c of None \<Rightarrow> True | Some v \<Rightarrow> v < 0 \<or> 4 < v)"

text \<open>
  The reading of the canvas claim: the right edges of the blocks, and the label
  positions with the bottom edges of the blocks, each list with its running maximum
  from 0.
\<close>

definition runningMax :: "int list \<Rightarrow> int" where
  "runningMax xs = foldl max 0 xs"

definition extentsX :: "config \<Rightarrow> int \<Rightarrow> child list \<Rightarrow> int list" where
  "extentsX cfg width children =
     concat (map (\<lambda>obj. case blockX cfg width obj of None \<Rightarrow> [] | Some x \<Rightarrow> [x + blockSize cfg])
                 children)"

definition extentsY :: "config \<Rightarrow> int \<Rightarrow> (string \<times> nat) list \<Rightarrow> nat \<Rightarrow> child list \<Rightarrow> int list" where
  "extentsY cfg cmc parentSizes n children =
     concat (map (\<lambda>i. case labelY cfg cmc parentSizes i of None \<Rightarrow> [] | Some y \<Rightarrow> [y]) [0..<n])
     @ concat (map (\<lambda>obj. case blockY cfg obj of None \<Rightarrow> [] | Some y \<Rightarrow> [y + blockSize cfg])
                   children)"

text \<open>The sort key, and a child without the two fields that \<^verbatim>\<open>generate\<close> writes.\<close>

definition parentKey :: "child \<Rightarrow> string" where
  "parentKey c = (case parent c of None \<Rightarrow> [] | Some p \<Rightarrow> p)"

definition unplaced :: "child \<Rightarrow> child" where
  "unplaced c = c\<lparr>row := None, index := None\<rparr>"

text \<open>Three children of two parents, a graph with two blocks per row, and a text measure.\<close>

definition exA0 :: child where
  "exA0 = \<lparr>parent = Some ''A'', color = Some 0, parentColor = Some 0,
           row = None, index = None, display = []\<rparr>"

definition exA1 :: child where
  "exA1 = \<lparr>parent = Some ''A'', color = Some 1, parentColor = Some 0,
           row = None, index = None, display = []\<rparr>"

definition exB0 :: child where
  "exB0 = \<lparr>parent = Some ''B'', color = Some 2, parentColor = Some 1,
           row = None, index = None, display = []\<rparr>"

definition exOrphan :: child where
  "exOrphan = \<lparr>parent = None, color = Some 1, parentColor = Some 1,
               row = None, index = None, display = []\<rparr>"

text \<open>Two children of a parent that is named like the method of \<^verbatim>\<open>parentSizes\<close>.\<close>

definition exC0 :: child where
  "exC0 = \<lparr>parent = Some ''containsKey'', color = Some 0, parentColor = Some 0,
           row = None, index = None, display = []\<rparr>"

definition exC1 :: child where
  "exC1 = \<lparr>parent = Some ''containsKey'', color = Some 1, parentColor = Some 0,
           row = None, index = None, display = []\<rparr>"

definition exGraph :: config where
  "exGraph = RelationshipGraph None (Some 2)"

definition exMeasure :: "string \<Rightarrow> int" where
  "exMeasure s = 7 * int (length s)"

text \<open>What \<^verbatim>\<open>generate\<close> returns on the three children, given as B, A, A.\<close>

definition exResult :: graph where
  "exResult =
     \<lparr> records = [exA0\<lparr>row := Some 1, index := Some 1\<rparr>, exA1\<lparr>row := Some 1, index := Some 2\<rparr>,
                   exB0\<lparr>row := Some 2, index := Some 1\<rparr>],
       maxWidth = 268, maxHeight = 72, svgWidth = 283, svgHeight = 87 \<rparr>"

section \<open>Properties of the small operations\<close>

lemma abbreviate_longer: "25 < length s \<Longrightarrow> abbreviate s = take 25 s @ ''...''"
  by (simp add: abbreviate_def)

lemma abbreviate_shorter: "length s < 25 \<Longrightarrow> abbreviate s = s"
  by (simp add: abbreviate_def)

lemma showTooltips_always: "showTooltips (RelationshipGraph st mc) = True"
  by (simp add: RelationshipGraph_def or_bool_def split: option.splits bool.splits)

lemma verifyElement_cases:
  "verifyElement c =
     (if lacksParent c then Some MissingParent
      else if colorUnsupported c then Some InvalidColor
      else if parentColorUnsupported c then Some InvalidParentColor
      else None)"
  by (auto simp: verifyElement_def lacksParent_def colorUnsupported_def
      parentColorUnsupported_def split: option.splits)

lemma verifyEach_Some:
  "verifyEach xs = Some e \<Longrightarrow> \<exists>c \<in> set xs. verifyElement c = Some e"
  by (induction xs) (auto split: option.splits)

subsection \<open>Letter case and the hidden keys\<close>

lemma lower_upper_char: "toLowerCaseChar (toUpperCaseChar c) = toLowerCaseChar c"
proof (cases "CHR ''a'' \<le> c \<and> c \<le> CHR ''z''")
  case True
  define n :: nat where "n = of_char c"
  from True have r: "97 \<le> n" "n \<le> 122" by (simp_all add: less_eq_char_def n_def)
  have u: "toUpperCaseChar c = char_of (n - 32)" using True by (simp add: toUpperCaseChar_def n_def)
  have m: "(n - 32) mod 256 = n - 32" using r by simp
  have v: "(of_char (char_of (n - 32) :: char) :: nat) = n - 32" by (simp add: m)
  have b: "65 \<le> n - 32 \<and> n - 32 \<le> 90" using r by arith
  have "CHR ''A'' \<le> (char_of (n - 32) :: char) \<and> (char_of (n - 32) :: char) \<le> CHR ''Z''"
    unfolding less_eq_char_def v using b by simp
  then have "toLowerCaseChar (char_of (n - 32)) =
      char_of (of_char (char_of (n - 32) :: char) + (32::nat))"
    by (simp only: toLowerCaseChar_def if_True simp_thms)
  also have "\<dots> = char_of (n - 32 + 32)" by (simp only: v)
  also have "n - 32 + 32 = n" using r by simp
  also have "char_of n = c" by (simp add: n_def)
  finally have 1: "toLowerCaseChar (toUpperCaseChar c) = c" by (simp add: u)
  have "\<not> (CHR ''A'' \<le> c \<and> c \<le> CHR ''Z'')"
    using r by (simp add: less_eq_char_def n_def)
  then have "toLowerCaseChar c = c" by (simp only: toLowerCaseChar_def if_False)
  with 1 show ?thesis by simp
next
  case False
  then show ?thesis by (simp only: toUpperCaseChar_def if_False)
qed

lemma upper_lower_char: "toUpperCaseChar (toLowerCaseChar c) = toUpperCaseChar c"
proof (cases "CHR ''A'' \<le> c \<and> c \<le> CHR ''Z''")
  case True
  define n :: nat where "n = of_char c"
  from True have r: "65 \<le> n" "n \<le> 90" by (simp_all add: less_eq_char_def n_def)
  have u: "toLowerCaseChar c = char_of (n + 32)" using True by (simp add: toLowerCaseChar_def n_def)
  have m: "(n + 32) mod 256 = n + 32" using r by simp
  have v: "(of_char (char_of (n + 32) :: char) :: nat) = n + 32" by (simp add: m)
  have b: "97 \<le> n + 32 \<and> n + 32 \<le> 122" using r by arith
  have "CHR ''a'' \<le> (char_of (n + 32) :: char) \<and> (char_of (n + 32) :: char) \<le> CHR ''z''"
    unfolding less_eq_char_def v using b by simp
  then have "toUpperCaseChar (char_of (n + 32)) =
      char_of (of_char (char_of (n + 32) :: char) - (32::nat))"
    by (simp only: toUpperCaseChar_def if_True simp_thms)
  also have "\<dots> = char_of (n + 32 - 32)" by (simp only: v)
  also have "n + 32 - 32 = n" by simp
  also have "char_of n = c" by (simp add: n_def)
  finally have 1: "toUpperCaseChar (toLowerCaseChar c) = c" by (simp add: u)
  have "\<not> (CHR ''a'' \<le> c \<and> c \<le> CHR ''z'')"
    using r by (simp add: less_eq_char_def n_def)
  then have "toUpperCaseChar c = c" by (simp only: toUpperCaseChar_def if_False)
  with 1 show ?thesis by simp
next
  case False
  then show ?thesis by (simp only: toLowerCaseChar_def if_False)
qed

lemma lower_upper_string: "map toLowerCaseChar (toUpperCase s) = map toLowerCaseChar s"
  by (induction s) (simp_all add: toUpperCase_def lower_upper_char)

lemma upper_lower_string: "toUpperCase (map toLowerCaseChar s) = toUpperCase s"
  by (induction s) (simp_all add: toUpperCase_def upper_lower_char)

lemma upper_eq_iff_lower_eq:
  "toUpperCase a = toUpperCase b \<longleftrightarrow> equalIgnoringCase a b"
proof
  assume "toUpperCase a = toUpperCase b"
  then have "map toLowerCaseChar (toUpperCase a) = map toLowerCaseChar (toUpperCase b)"
    by simp
  then show "equalIgnoringCase a b"
    by (simp only: equalIgnoringCase_def lower_upper_string)
next
  assume "equalIgnoringCase a b"
  then have "toUpperCase (map toLowerCaseChar a) = toUpperCase (map toLowerCaseChar b)"
    by (simp only: equalIgnoringCase_def)
  then show "toUpperCase a = toUpperCase b"
    by (simp only: upper_lower_string)
qed


lemma hiddenKeys_upper: "hiddenKeys = map toUpperCase internalFields"
  by code_simp


lemma hidden_iff_internal: "contains hiddenKeys (toUpperCase key) \<longleftrightarrow> isInternal key"
proof -
  have "contains hiddenKeys (toUpperCase key) \<longleftrightarrow>
      (\<exists>f \<in> set internalFields. toUpperCase key = toUpperCase f)"
    unfolding contains_def hiddenKeys_upper by (simp only: set_map image_iff)
  then show ?thesis
    unfolding isInternal_def by (simp only: upper_eq_iff_lower_eq)
qed

lemma concat_map_if: "concat (map (\<lambda>x. if P x then [f x] else []) xs) = map f (filter P xs)"
  by (induction xs) simp_all

lemma set_objectKeys: "set (objectKeys obj) = fst ` set obj"
  by (auto simp: objectKeys_def)

lemma ex_tooltip:
  "html exGraph [(''Name'', ''x''), (''ROW'', ''1''), (''parentColor'', ''2''), (''size'', ''3''),
      (''Parent'', ''A'')] = [[''Name'', ''x''], [''size'', ''3'']]"
  by code_simp

section \<open>Properties of the row and column assignment\<close>

subsection \<open>One pass of the loop\<close>


lemma assignCells_length: "length (assignCells cmc rw ix pp xs) = length xs"
  by (induction xs arbitrary: rw ix pp) auto

lemma assignCells_parent: "map parent (assignCells cmc rw ix pp xs) = map parent xs"
  by (induction xs arbitrary: rw ix pp) auto


lemma assignCells_step:
  "Suc i < length xs \<Longrightarrow>
   nextCell cmc (assignCells cmc rw ix pp xs ! i) (assignCells cmc rw ix pp xs ! Suc i)"
proof (induction xs arbitrary: rw ix pp i)
  case Nil
  then show ?case by simp
next
  case (Cons e rest)
  then obtain f rest' where rest: "rest = f # rest'" by (cases rest) auto
  show ?case
  proof (cases i)
    case 0
    show ?thesis
      unfolding 0 rest nextCell_def by (simp del: One_nat_def) 
  next
    case (Suc j)
    with Cons.prems have "Suc j < length rest" by simp
    from Cons.IH[OF this] show ?thesis unfolding Suc by simp
  qed
qed


lemma nextCell_row:
  "nextCell cmc a b \<Longrightarrow> \<exists>ra rb. row a = Some ra \<and> row b = Some rb \<and> ra \<le> rb \<and> rb \<le> ra + 1"
  by (auto simp: nextCell_def split: if_splits)

lemma unplaced_assignCells:
  "map unplaced (assignCells cmc rw ix pp xs) = map unplaced xs"
  by (induction xs arbitrary: rw ix pp) (auto simp: unplaced_def)

lemma assignCells_cong:
  "map parent xs = map parent ys \<Longrightarrow>
   map (\<lambda>r. (parent r, row r, index r)) (assignCells cmc rw ix pp xs) =
   map (\<lambda>r. (parent r, row r, index r)) (assignCells cmc rw ix pp ys)"
proof (induction xs arbitrary: ys rw ix pp)
  case Nil
  then show ?case by simp
next
  case (Cons x xs)
  then obtain y ys' where ys: "ys = y # ys'" by (cases ys) auto
  with Cons.prems have p: "parent x = parent y" "map parent xs = map parent ys'" by simp_all
  show ?case unfolding ys using Cons.IH[OF p(2)] p(1) by simp
qed

lemma assignCells_again:
  "assignCells cmc rw ix pp (assignCells cmc rw' ix' pp' xs) = assignCells cmc rw ix pp xs"
  by (induction xs arbitrary: rw ix pp rw' ix' pp') auto

subsection \<open>The sort and the checks\<close>

lemma insertBy_insort:
  "parent x \<noteq> None \<Longrightarrow> \<forall>c \<in> set xs. parent c \<noteq> None \<Longrightarrow>
   insertBy compareParent x xs = insort_key parentKey x xs"
  by (induction xs) (auto simp: compareParent_def js_less_def parentKey_def)

lemma set_insertBy: "set (insertBy cmp x xs) = insert x (set xs)"
  by (induction xs) auto

lemma set_sortBy: "set (sortBy cmp xs) = set xs"
  by (induction xs) (auto simp: sortBy_def set_insertBy)

lemma mset_insertBy: "mset (insertBy cmp x xs) = add_mset x (mset xs)"
  by (induction xs) auto

lemma mset_sortBy: "mset (sortBy cmp xs) = mset xs"
  by (induction xs) (auto simp: sortBy_def mset_insertBy)

lemma length_sortBy: "length (sortBy cmp xs) = length xs"
  using mset_sortBy[of cmp xs] by (metis size_mset)

lemma sortBy_sort_key:
  "\<forall>c \<in> set xs. parent c \<noteq> None \<Longrightarrow> sortBy compareParent xs = sort_key parentKey xs"
proof (induction xs)
  case Nil
  then show ?case by (simp add: sortBy_def)
next
  case (Cons x xs)
  then have "sortBy compareParent xs = sort_key parentKey xs" by simp
  moreover have "sortBy compareParent (x # xs) = insertBy compareParent x (sortBy compareParent xs)"
    by (simp add: sortBy_def)
  moreover have "insertBy compareParent x (sortBy compareParent xs)
      = insort_key parentKey x (sortBy compareParent xs)"
    using Cons.prems by (intro insertBy_insort) (auto simp: set_sortBy)
  ultimately show ?case by simp
qed

lemma verifyEach_None: "verifyEach xs = None \<longleftrightarrow> (\<forall>c \<in> set xs. verifyElement c = None)"
  by (induction xs) (auto split: option.splits)

lemma verifyElement_None:
  "verifyElement c = None \<longleftrightarrow>
     parent c \<noteq> None \<and> (\<exists>v. color c = Some v \<and> 0 \<le> v \<and> v \<le> 3)
       \<and> (\<exists>v. parentColor c = Some v \<and> 0 \<le> v \<and> v \<le> 4)"
  by (auto simp: verifyElement_def split: option.splits)

lemma own_keys_bump:
  "map_of (map (\<lambda>(k, n). if k = p then (k, n + 1) else (k, n)) sz) key = None \<longleftrightarrow>
   map_of sz key = None"
  by (induction sz) (auto split: if_splits)

lemma own_keys_add: "map_of (sz @ [(p, v)]) key = None \<longleftrightarrow> map_of sz key = None \<and> key \<noteq> p"
  by (auto simp: map_of_eq_None_iff)

lemma containsKey_own: "containsKey sz key \<longleftrightarrow> map_of sz key \<noteq> None"
  by (auto simp: containsKey_def objectKeys_def map_of_eq_None_iff)

text \<open>
  The first loop throws exactly when a parent is \<^verbatim>\<open>undefined\<close> or a child follows one
  whose parent is named \<^verbatim>\<open>containsKey\<close>.
\<close>

lemma countParents_returns:
  "(\<exists>r. countParents xs ps sz = Some r) \<longleftrightarrow>
     (\<forall>c \<in> set xs. parent c \<noteq> None) \<and>
     (xs \<noteq> [] \<longrightarrow> map_of sz ''containsKey'' = None) \<and>
     Some ''containsKey'' \<notin> set (map parent (butlast xs))"
proof (induction xs arbitrary: ps sz)
  case Nil
  then show ?case by simp
next
  case (Cons x xs)
  show ?case
  proof (cases "map_of sz ''containsKey'' = None")
    case False
    then show ?thesis by simp
  next
    case free: True
    show ?thesis
    proof (cases "parent x")
      case None
      then show ?thesis by (simp add: free)
    next
      case (Some p)
      show ?thesis
      proof (cases "containsKey sz p")
        case True
        then have "p \<noteq> ''containsKey''" using free by (auto simp: containsKey_own)
        moreover have "countParents (x # xs) ps sz =
            countParents xs ps (map (\<lambda>(k, n). if k = p then (k, n + 1) else (k, n)) sz)"
          using free Some True by simp
        ultimately show ?thesis
          using Cons.IH[of ps "map (\<lambda>(k, n). if k = p then (k, n + 1) else (k, n)) sz"] free Some
          by (auto simp: own_keys_bump)
      next
        case False
        show ?thesis
        proof (cases "p = ''__proto__''")
          case True
          then have "countParents (x # xs) ps sz = countParents xs (ps @ [abbreviate p]) sz"
            using free Some False by simp
          then show ?thesis
            using Cons.IH[of "ps @ [abbreviate p]" sz] free Some True by auto
        next
          case np: False
          then have "countParents (x # xs) ps sz =
              countParents xs (ps @ [abbreviate p]) (sz @ [(p, 1)])"
            using free Some False by simp
          then show ?thesis
            using Cons.IH[of "ps @ [abbreviate p]" "sz @ [(p, 1)]"] free Some
            by (auto simp: own_keys_add)
        qed
      qed
    qed
  qed
qed

lemma generate_records:
  assumes "generate cfg clientWidth measureText (Some js) = Inr g"
  shows "records g = layout (calculatedMaxChildren cfg clientWidth) js"
    and "verifyJson (Some js) = Inr True"
  using assms
  by (auto simp: generate_def layout_def Let_def verifyJson_def split: sum.splits option.splits if_splits)

lemma verifyJson_ok:
  "verifyJson (Some js) = Inr True \<longleftrightarrow> js \<noteq> [] \<and> (\<forall>c \<in> set js. verifyElement c = None)"
  using verifyEach_None[of js] by (cases "verifyEach js") (auto simp: verifyJson_def)

text \<open>
  When \<^verbatim>\<open>generate\<close> returns: on the arrays that \<^verbatim>\<open>verifyJson\<close> accepts and in
  which, once sorted, no child with the parent name \<^verbatim>\<open>containsKey\<close> has a child
  after it.
\<close>

lemma generate_returns_iff:
  "(\<exists>g. generate cfg clientWidth measureText (Some js) = Inr g) \<longleftrightarrow>
     verifyJson (Some js) = Inr True \<and>
     Some ''containsKey'' \<notin> set (map parent (butlast (sortBy compareParent js)))"
proof (cases "verifyJson (Some js) = Inr True")
  case False
  then show ?thesis using generate_records(2) by blast
next
  case True
  then have some: "\<forall>c \<in> set (sortBy compareParent js). parent c \<noteq> None"
    by (auto simp: verifyJson_ok verifyElement_None set_sortBy)
  have "(\<exists>g. generate cfg clientWidth measureText (Some js) = Inr g) \<longleftrightarrow>
      (\<exists>r. countParents (sortBy compareParent js) [] [] = Some r)"
    using True by (auto simp: generate_def Let_def split: option.splits)
  also have "\<dots> \<longleftrightarrow> Some ''containsKey'' \<notin> set (map parent (butlast (sortBy compareParent js)))"
    unfolding countParents_returns using some by simp
  finally show ?thesis using True by simp
qed

lemma generate_ok:
  assumes "verifyJson (Some js) = Inr True"
    and "\<forall>c \<in> set js. parent c \<noteq> Some ''containsKey''"
  shows "\<exists>g. generate cfg clientWidth measureText (Some js) = Inr g"
proof -
  have "set (butlast (sortBy compareParent js)) \<subseteq> set js"
    using set_sortBy[of compareParent js] by (metis in_set_butlastD subsetI)
  with assms(2) have "Some ''containsKey'' \<notin> set (map parent (butlast (sortBy compareParent js)))"
    by auto
  with assms(1) show ?thesis by (simp add: generate_returns_iff)
qed

subsection \<open>Consequences of the step between neighbours\<close>

lemma chain_assignCells: "chain cmc (assignCells cmc rw ix pp xs)"
  by (simp add: chain_def assignCells_step assignCells_length)

lemma assignCells_defined:
  "r \<in> set (assignCells cmc rw ix pp xs) \<Longrightarrow> row r \<noteq> None \<and> index r \<noteq> None"
  by (induction xs arbitrary: rw ix pp) (auto split: if_splits)

lemma chain_step_row:
  assumes "chain cmc out" "Suc i < length out"
  shows "the (row (out ! i)) \<le> the (row (out ! Suc i))"
    and "the (row (out ! Suc i)) \<le> the (row (out ! i)) + 1"
  using assms nextCell_row[of cmc "out ! i" "out ! Suc i"] by (auto simp: chain_def)

lemma chain_rows_mono:
  assumes "chain cmc out"
  shows "i \<le> j \<Longrightarrow> j < length out \<Longrightarrow> the (row (out ! i)) \<le> the (row (out ! j))"
proof (induction j)
  case 0
  then show ?case by simp
next
  case (Suc j)
  show ?case
  proof (cases "i = Suc j")
    case True
    then show ?thesis by simp
  next
    case False
    with Suc.prems have "i \<le> j" "j < length out" by simp_all
    with Suc.IH have "the (row (out ! i)) \<le> the (row (out ! j))" by simp
    moreover from chain_step_row(1)[OF assms Suc.prems(2)]
    have "the (row (out ! j)) \<le> the (row (out ! Suc j))" .
    ultimately show ?thesis by simp
  qed
qed

text \<open>Between two positions with different parents the parent changes somewhere.\<close>

lemma parent_change_between:
  "i < j \<Longrightarrow> parent (out ! i) \<noteq> parent (out ! j) \<Longrightarrow>
   \<exists>k. i \<le> k \<and> k < j \<and> parent (out ! k) \<noteq> parent (out ! Suc k)"
proof (induction j)
  case 0
  then show ?case by simp
next
  case (Suc j)
  show ?case
  proof (cases "parent (out ! j) = parent (out ! Suc j)")
    case True
    with Suc.prems have "i < j" "parent (out ! i) \<noteq> parent (out ! j)"
      by (auto simp: less_Suc_eq)
    from Suc.IH[OF this] obtain k where "i \<le> k" "k < j" "parent (out ! k) \<noteq> parent (out ! Suc k)"
      by blast
    then show ?thesis by (intro exI[of _ k]) simp
  next
    case False
    with Suc.prems show ?thesis by (intro exI[of _ j]) simp
  qed
qed

lemma chain_new_parent_new_row:
  assumes c: "chain cmc out" and ij: "i < j" "j < length out"
    and p: "parent (out ! i) \<noteq> parent (out ! j)"
  shows "the (row (out ! i)) < the (row (out ! j))"
proof -
  from parent_change_between[OF ij(1) p] obtain k
    where k: "i \<le> k" "k < j" "parent (out ! k) \<noteq> parent (out ! Suc k)" by blast
  then have sk: "Suc k < length out" "Suc k \<le> j" using ij by simp_all
  from c sk(1) have "nextCell cmc (out ! k) (out ! Suc k)" by (simp add: chain_def)
  with k(3) have "the (row (out ! k)) < the (row (out ! Suc k))"
    by (auto simp: nextCell_def)
  moreover have "the (row (out ! i)) \<le> the (row (out ! k))"
    using chain_rows_mono[OF c k(1)] sk(1) by simp
  moreover have "the (row (out ! Suc k)) \<le> the (row (out ! j))"
    using chain_rows_mono[OF c sk(2) ij(2)] .
  ultimately show ?thesis by simp
qed

text \<open>Along the array the pair (row, index) grows strictly, in lexicographic order.\<close>

lemma chain_cells_increase:
  assumes c: "chain cmc out"
  shows "i < j \<Longrightarrow> j < length out \<Longrightarrow>
    the (row (out ! i)) < the (row (out ! j)) \<or>
    (the (row (out ! i)) = the (row (out ! j)) \<and> the (index (out ! i)) < the (index (out ! j)))"
proof (induction j)
  case 0
  then show ?case by simp
next
  case (Suc j)
  from c Suc.prems(2) have n: "nextCell cmc (out ! j) (out ! Suc j)" by (simp add: chain_def)
  then have step: "the (row (out ! j)) < the (row (out ! Suc j)) \<or>
    (the (row (out ! j)) = the (row (out ! Suc j)) \<and> the (index (out ! j)) < the (index (out ! Suc j)))"
    by (auto simp: nextCell_def split: if_splits)
  show ?case
  proof (cases "i = j")
    case True
    with step show ?thesis by simp
  next
    case False
    with Suc.prems have "i < j" "j < length out" by simp_all
    from Suc.IH[OF this] step show ?thesis by auto
  qed
qed

text \<open>Rows grow by at most one from a child to the next: no row number is skipped.\<close>

lemma chain_rows_onto:
  assumes c: "chain cmc out"
  shows "i \<le> j \<Longrightarrow> j < length out \<Longrightarrow> the (row (out ! i)) \<le> k \<Longrightarrow> k \<le> the (row (out ! j)) \<Longrightarrow>
    \<exists>m. i \<le> m \<and> m \<le> j \<and> the (row (out ! m)) = k"
proof (induction j)
  case 0
  then show ?case by (intro exI[of _ 0]) simp
next
  case (Suc j)
  show ?case
  proof (cases "k = the (row (out ! Suc j))")
    case True
    with Suc.prems show ?thesis by (intro exI[of _ "Suc j"]) simp
  next
    case False
    with Suc.prems have lt: "k < the (row (out ! Suc j))" by simp
    have "i \<noteq> Suc j" using lt Suc.prems(3) by auto
    with Suc.prems have ij: "i \<le> j" "j < length out" by simp_all
    from chain_step_row(2)[OF c Suc.prems(2)] lt have "k \<le> the (row (out ! j))" by simp
    from Suc.IH[OF ij Suc.prems(3) this] obtain m where "i \<le> m" "m \<le> j" "the (row (out ! m)) = k"
      by blast
    then show ?thesis by (intro exI[of _ m]) simp
  qed
qed

subsection \<open>Orderings of the same records\<close>

lemma map_sort_key: "map f (sort_key f xs) = sort (map f xs)"
proof (rule properties_for_sort[symmetric])
  show "mset (map f (sort_key f xs)) = mset (map f xs)" by simp
  show "sorted (map f (sort_key f xs))" by (rule sorted_sort_key)
qed

lemma sort_key_keys_perm:
  assumes "mset xs = mset ys"
  shows "map f (sort_key f xs) = map f (sort_key f ys)"
proof -
  have "mset (map f xs) = mset (map f ys)" using assms by (metis mset_map)
  then have "sort (map f xs) = sort (map f ys)"
    by (intro properties_for_sort) simp_all
  then show ?thesis by (simp add: map_sort_key)
qed

lemma verifyJson_perm:
  assumes "verifyJson (Some xs) = Inr True" "mset xs = mset ys"
  shows "verifyJson (Some ys) = Inr True"
proof -
  from assms(2) have "set xs = set ys" by (rule mset_eq_setD)
  moreover from assms have "ys \<noteq> []" by (auto simp: verifyJson_ok)
  ultimately show ?thesis using assms(1) by (simp add: verifyJson_ok)
qed

lemma verifyEach_unplaced: "verifyEach (map unplaced xs) = verifyEach xs"
  by (induction xs) (auto simp: verifyElement_def unplaced_def)

lemma countParents_cong:
  "map parent xs = map parent ys \<Longrightarrow> countParents xs ps sz = countParents ys ps sz"
proof (induction xs arbitrary: ys ps sz)
  case Nil
  then show ?case by simp
next
  case (Cons x xs)
  then obtain y ys' where ys: "ys = y # ys'" by (cases ys) auto
  with Cons.prems have p: "parent x = parent y" "map parent xs = map parent ys'" by simp_all
  show ?case unfolding ys using Cons.IH[OF p(2)] p(1) by (simp split: option.splits)
qed

subsection \<open>What holds of the array when \<^verbatim>\<open>generate\<close> returns\<close>

lemma parentKey_assignCells:
  "map parentKey (assignCells cmc rw ix pp xs) = map parentKey xs"
  by (induction xs arbitrary: rw ix pp) (auto simp: parentKey_def)

lemma valid_parent_Some:
  assumes "verifyJson (Some js) = Inr True" "c \<in> set js"
  shows "parent c = Some (parentKey c)"
  using assms by (auto simp: verifyJson_ok verifyElement_None parentKey_def)

lemma generate_sorted:
  assumes gen: "generate cfg clientWidth measureText (Some js) = Inr g"
  shows "sorted (map parentKey (records g))"
    and "map parent (records g) = map Some (map parentKey (records g))"
proof -
  let ?cmc = "calculatedMaxChildren cfg clientWidth"
  have v: "verifyJson (Some js) = Inr True" by (rule generate_records(2)[OF gen])
  have r: "records g = assignCells ?cmc 1 1 None (sortBy compareParent js)"
    using generate_records(1)[OF gen] by (simp add: layout_def)
  have some: "\<forall>c \<in> set js. parent c \<noteq> None"
    using v by (auto simp: verifyJson_ok verifyElement_None)
  have s: "sortBy compareParent js = sort_key parentKey js"
    by (rule sortBy_sort_key[OF some])
  show "sorted (map parentKey (records g))"
    unfolding r parentKey_assignCells s by (rule sorted_sort_key)
  have "map parent (sortBy compareParent js) = map Some (map parentKey (sortBy compareParent js))"
    using valid_parent_Some[OF v] by (simp add: set_sortBy)
  then show "map parent (records g) = map Some (map parentKey (records g))"
    unfolding r parentKey_assignCells assignCells_parent .
qed

lemma generate_chain:
  assumes gen: "generate cfg clientWidth measureText (Some js) = Inr g"
  shows "chain (calculatedMaxChildren cfg clientWidth) (records g)"
    and "r \<in> set (records g) \<Longrightarrow> row r \<noteq> None \<and> index r \<noteq> None"
  using generate_records(1)[OF gen] chain_assignCells assignCells_defined
  by (auto simp: layout_def)

lemma sorted_between:
  assumes "sorted (map f xs)" "i \<le> m" "m \<le> j" "j < length xs" "f (xs ! i) = f (xs ! j)"
  shows "f (xs ! m) = f (xs ! i)"
proof -
  have "f (xs ! i) \<le> f (xs ! m)"
    using sorted_nth_mono[OF assms(1), of i m] assms by simp
  moreover have "f (xs ! m) \<le> f (xs ! j)"
    using sorted_nth_mono[OF assms(1), of m j] assms by simp
  ultimately show ?thesis using assms(5) by simp
qed

text \<open>A second call on the array that the first call left changes nothing.\<close>

lemma generate_again:
  assumes gen: "generate cfg clientWidth measureText (Some js) = Inr g"
  shows "generate cfg clientWidth measureText (Some (records g)) = Inr g"
proof -
  let ?cmc = "calculatedMaxChildren cfg clientWidth"
  let ?s = "sortBy compareParent js"
  have v: "verifyJson (Some js) = Inr True" by (rule generate_records(2)[OF gen])
  have r: "records g = assignCells ?cmc 1 1 None ?s"
    using generate_records(1)[OF gen] by (simp add: layout_def)
  have ne: "records g \<noteq> []" using v r verifyJson_ok[of js] length_sortBy[of compareParent js]
    by (metis assignCells_length length_0_conv)
  have "verifyEach ?s = None" using v by (simp add: verifyJson_ok verifyEach_None set_sortBy)
  then have "verifyEach (records g) = None"
    unfolding r using verifyEach_unplaced[of "assignCells ?cmc 1 1 None ?s"]
    by (simp add: unplaced_assignCells verifyEach_unplaced)
  with ne have v': "verifyJson (Some (records g)) = Inr True" by (simp add: verifyJson_def)
  have some: "\<forall>c \<in> set (records g). parent c \<noteq> None"
    using v' by (auto simp: verifyJson_ok verifyElement_None)
  have s': "sortBy compareParent (records g) = records g"
    unfolding sortBy_sort_key[OF some]
    by (rule sort_key_id_if_sorted[OF generate_sorted(1)[OF gen]])
  have c': "countParents (records g) [] [] = countParents ?s [] []"
    by (rule countParents_cong) (simp add: r assignCells_parent)
  have a': "assignCells ?cmc 1 1 None (records g) = assignCells ?cmc 1 1 None ?s"
    unfolding r by (rule assignCells_again)
  have "generate cfg clientWidth measureText (Some (records g))
      = generate cfg clientWidth measureText (Some js)"
    by (simp add: generate_def Let_def v v' s' c' a' split: option.splits prod.splits)
  with gen show ?thesis by simp
qed

subsection \<open>The example, evaluated\<close>

lemma ex_valid: "verifyJson (Some [exB0, exA0, exA1]) = Inr True"
  by (simp add: verifyJson_def verifyElement_def exA0_def exA1_def exB0_def)


lemma ex_sorted: "sortBy compareParent [exB0, exA0, exA1] = [exA0, exA1, exB0]"
  by (simp add: sortBy_def compareParent_def js_less_def exA0_def exA1_def exB0_def)

lemma ex_layout:
  "layout 2 [exB0, exA0, exA1] =
     [exA0\<lparr>row := Some 1, index := Some 1\<rparr>, exA1\<lparr>row := Some 1, index := Some 2\<rparr>,
      exB0\<lparr>row := Some 2, index := Some 1\<rparr>]"
  by (simp add: layout_def ex_sorted) (simp add: exA0_def exA1_def exB0_def)

lemma ex_generate:
  "generate exGraph 500 exMeasure (Some [exB0, exA0, exA1]) = Inr exResult"
  by code_simp

text \<open>An accepted array on which \<^verbatim>\<open>generate\<close> throws in its first loop.\<close>

lemma ex_shadowed:
  "verifyJson (Some [exC0, exC1]) = Inr True \<and>
   generate exGraph 500 exMeasure (Some [exC0, exC1]) = Inl TypeError"
  by code_simp

section \<open>The claims\<close>



text \<open>
  C2. \<^verbatim>\<open>verifyJson\<close> returns \<^verbatim>\<open>true\<close> exactly when none of the four conditions
  holds, and never \<^verbatim>\<open>false\<close>. Otherwise it throws one error: the empty-input
  error exactly when the array is absent or empty, and each of the other three only
  when some record meets its condition (the error is that of the first record that
  fails a check, parent before color before parentColor). It returns nothing but its
  result, so the array is as it was.
\<close>

theorem verifyJson_errors:
  "(verifyJson json = Inr True \<longleftrightarrow>
      \<not> emptyInput json \<and>
      \<not> (\<exists>c \<in> set (recordsOf json). lacksParent c \<or> colorUnsupported c \<or> parentColorUnsupported c)) \<and>
   verifyJson json \<noteq> Inr False \<and>
   (verifyJson json = Inl EmptyInput \<longleftrightarrow> emptyInput json) \<and>
   (verifyJson json = Inl MissingParent \<longrightarrow> (\<exists>c \<in> set (recordsOf json). lacksParent c)) \<and>
   (verifyJson json = Inl InvalidColor \<longrightarrow> (\<exists>c \<in> set (recordsOf json). colorUnsupported c)) \<and>
   (verifyJson json = Inl InvalidParentColor \<longrightarrow>
      (\<exists>c \<in> set (recordsOf json). parentColorUnsupported c))"
proof (cases json)
  case None
  then show ?thesis by (simp add: verifyJson_def emptyInput_def)
next
  case (Some js)
  show ?thesis
  proof (cases "js = []")
    case True
    with Some show ?thesis by (simp add: verifyJson_def emptyInput_def recordsOf_def)
  next
    case False
    show ?thesis
    proof (cases "verifyEach js")
      case None
      then have "\<forall>c \<in> set js. verifyElement c = None" by (simp add: verifyEach_None)
      then have ok: "\<forall>c \<in> set js. \<not> lacksParent c \<and> \<not> colorUnsupported c \<and> \<not> parentColorUnsupported c"
        by (simp add: verifyElement_cases split: if_splits)
      have "verifyJson json = Inr True" using Some False None by (simp add: verifyJson_def)
      with ok Some False show ?thesis by (auto simp: emptyInput_def recordsOf_def)
    next
      case (Some e)
      from verifyEach_Some[OF this] obtain c where c: "c \<in> set js" "verifyElement c = Some e"
        by blast
      have r: "verifyJson json = Inl e" using \<open>json = Some js\<close> False Some by (simp add: verifyJson_def)
      have ne: "e \<noteq> EmptyInput" using c(2) by (auto simp: verifyElement_cases split: if_splits)
      have bad: "lacksParent c \<or> colorUnsupported c \<or> parentColorUnsupported c"
        using c(2) by (auto simp: verifyElement_cases split: if_splits)
      have which: "(e = MissingParent \<longrightarrow> lacksParent c) \<and> (e = InvalidColor \<longrightarrow> colorUnsupported c)
          \<and> (e = InvalidParentColor \<longrightarrow> parentColorUnsupported c)"
        using c(2) by (auto simp: verifyElement_cases split: if_splits)
      have rec: "recordsOf json = js" using \<open>json = Some js\<close> by (simp add: recordsOf_def)
      have nonempty: "\<not> emptyInput json" using \<open>json = Some js\<close> False by (simp add: emptyInput_def recordsOf_def)
      show ?thesis unfolding r rec using c(1) ne bad which nonempty by auto
    qed
  qed
qed

theorem verifyJson_errors_witness:
  "verifyJson (Some [exA0, exOrphan]) = Inl MissingParent \<and> lacksParent exOrphan \<and>
   verifyJson (Some [exA0, exA1]) = Inr True \<and> \<not> emptyInput (Some [exA0, exA1])"
proof -
  have h: "verifyJson (Some [exA0, exOrphan]) = Inl MissingParent" by code_simp
  have "\<not> lacksParent exA0" by code_simp
  with verifyJson_errors[of "Some [exA0, exOrphan]"] h have 1: "lacksParent exOrphan"
    by (simp add: recordsOf_def)
  have h2: "verifyJson (Some [exA0, exA1]) = Inr True" by code_simp
  with verifyJson_errors[of "Some [exA0, exA1]"] have 2: "\<not> emptyInput (Some [exA0, exA1])"
    by blast
  from h 1 h2 2 show ?thesis by blast
qed

text \<open>
  C3. In the array that \<^verbatim>\<open>generate\<close> leaves, sorted by parent, a record whose parent
  differs from the parent of the record just before it is in a later row and at index 1.
  More generally a record is in a later row than every earlier record of another
  parent, so no row holds records of two parents. This holds for every
  \<open>calculatedMaxChildren\<close>.
\<close>

theorem new_parent_new_row:
  assumes gen: "generate cfg clientWidth measureText (Some js) = Inr g"
    and ij: "i < j" "j < length (records g)"
    and p: "parent (records g ! i) \<noteq> parent (records g ! j)"
  shows "\<exists>ri rj. row (records g ! i) = Some ri \<and> row (records g ! j) = Some rj \<and> ri < rj \<and>
           (j = Suc i \<longrightarrow> index (records g ! j) = Some 1)"
proof -
  let ?cmc = "calculatedMaxChildren cfg clientWidth"
  have c: "chain ?cmc (records g)" by (rule generate_chain(1)[OF gen])
  from ij have "records g ! i \<in> set (records g)" "records g ! j \<in> set (records g)" by simp_all
  with generate_chain(2)[OF gen] obtain ri rj
    where r: "row (records g ! i) = Some ri" "row (records g ! j) = Some rj" by blast
  from chain_new_parent_new_row[OF c ij p] r have lt: "ri < rj" by simp
  have "index (records g ! j) = Some 1" if "j = Suc i"
  proof -
    from c ij(2) that have "nextCell ?cmc (records g ! i) (records g ! Suc i)"
      by (simp add: chain_def)
    with p that show ?thesis by (auto simp: nextCell_def)
  qed
  with r lt show ?thesis by blast
qed

theorem new_parent_new_row_witness:
  "generate exGraph 500 exMeasure (Some [exB0, exA0, exA1]) = Inr exResult \<and>
   (1::nat) < 2 \<and> 2 < length (records exResult) \<and>
   parent (records exResult ! 1) \<noteq> parent (records exResult ! 2) \<and>
   (\<exists>ri rj. row (records exResult ! 1) = Some ri \<and> row (records exResult ! 2) = Some rj \<and>
      ri < rj \<and> index (records exResult ! 2) = Some 1)"
proof -
  have h1: "generate exGraph 500 exMeasure (Some [exB0, exA0, exA1]) = Inr exResult"
    by (rule ex_generate)
  have h2: "(1::nat) < 2" by simp
  have h3: "2 < length (records exResult)" by (simp add: exResult_def)
  have h4: "parent (records exResult ! 1) \<noteq> parent (records exResult ! 2)"
    by (simp add: exResult_def exA1_def exB0_def)
  from new_parent_new_row[OF h1 h2 h3 h4] h1 h2 h3 h4 show ?thesis
    by (simp add: numeral_2_eq_2)
qed

text \<open>
  C4. In the array that \<^verbatim>\<open>generate\<close> leaves, the records of one parent \<open>p\<close> have
  pairwise different cells (row, index), and the rows they are in are exactly the
  numbers of a range \<open>lo..hi\<close>. This holds for every \<open>calculatedMaxChildren\<close>, so
  also for those of at least 1.
\<close>

theorem cells_distinct_rows_contiguous:
  assumes gen: "generate cfg clientWidth measureText (Some js) = Inr g"
  shows "distinct (map (\<lambda>r. (row r, index r)) (filter (\<lambda>r. parent r = p) (records g))) \<and>
         (\<exists>lo hi. {\<rho>. \<exists>r \<in> set (records g). parent r = p \<and> row r = Some \<rho>} = {lo..hi})"
proof
  let ?cmc = "calculatedMaxChildren cfg clientWidth"
  let ?out = "records g"
  have c: "chain ?cmc ?out" by (rule generate_chain(1)[OF gen])
  have def: "\<And>m. m < length ?out \<Longrightarrow> \<exists>\<rho> \<iota>. row (?out ! m) = Some \<rho> \<and> index (?out ! m) = Some \<iota>"
    using generate_chain(2)[OF gen] by (metis nth_mem option.exhaust)
  have "distinct (map (\<lambda>r. (row r, index r)) ?out)"
  proof (subst distinct_conv_nth, intro allI impI)
    fix i j
    assume i: "i < length (map (\<lambda>r. (row r, index r)) ?out)"
      and j: "j < length (map (\<lambda>r. (row r, index r)) ?out)" and ne: "i \<noteq> j"
    have *: "(row (?out ! a), index (?out ! a)) \<noteq> (row (?out ! b), index (?out ! b))"
      if "a < b" "b < length ?out" for a b
      using chain_cells_increase[OF c that] by auto
    from ne consider "i < j" | "j < i" by linarith
    then show "map (\<lambda>r. (row r, index r)) ?out ! i \<noteq> map (\<lambda>r. (row r, index r)) ?out ! j"
    proof cases
      case 1
      with *[of i j] i j show ?thesis by simp
    next
      case 2
      with *[of j i] i j show ?thesis by simp (metis)
    qed
  qed
  then show "distinct (map (\<lambda>r. (row r, index r)) (filter (\<lambda>r. parent r = p) ?out))"
    by (rule distinct_map_filter)
  let ?P = "{m. m < length ?out \<and> parent (?out ! m) = p}"
  let ?R = "{\<rho>. \<exists>r \<in> set ?out. parent r = p \<and> row r = Some \<rho>}"
  show "\<exists>lo hi. ?R = {lo..hi}"
  proof (cases "?P = {}")
    case True
    then have "?R = {}" by (auto simp: in_set_conv_nth)
    then have "?R = {1..(0::int)}" by simp
    then show ?thesis by blast
  next
    case False
    have fin: "finite ?P" by simp
    define i where "i = Min ?P"
    define j where "j = Max ?P"
    have iP: "i \<in> ?P" unfolding i_def by (rule Min_in[OF fin False])
    have jP: "j \<in> ?P" unfolding j_def by (rule Max_in[OF fin False])
    have ile: "\<And>m. m \<in> ?P \<Longrightarrow> i \<le> m" unfolding i_def using fin by (rule Min_le)
    have jge: "\<And>m. m \<in> ?P \<Longrightarrow> m \<le> j" unfolding j_def using fin by (rule Max_ge)
    have ij: "i \<le> j" using ile[OF jP] .
    have jl: "j < length ?out" using jP by simp
    have pij: "parent (?out ! i) = parent (?out ! j)" using iP jP by simp
    have s: "sorted (map parentKey ?out)" by (rule generate_sorted(1)[OF gen])
    have ps: "\<And>m. m < length ?out \<Longrightarrow> parent (?out ! m) = Some (parentKey (?out ! m))"
      using generate_sorted(2)[OF gen] by (metis length_map nth_map)
    have "?R = {the (row (?out ! i))..the (row (?out ! j))}"
    proof (intro set_eqI iffI)
      fix \<rho> assume "\<rho> \<in> ?R"
      then obtain m where m: "m < length ?out" "parent (?out ! m) = p" "row (?out ! m) = Some \<rho>"
        by (auto simp: in_set_conv_nth)
      then have mP: "m \<in> ?P" by simp
      have "the (row (?out ! i)) \<le> \<rho>"
        using chain_rows_mono[OF c ile[OF mP] m(1)] m(3) by simp
      moreover have "\<rho> \<le> the (row (?out ! j))"
        using chain_rows_mono[OF c jge[OF mP] jl] m(3) by simp
      ultimately show "\<rho> \<in> {the (row (?out ! i))..the (row (?out ! j))}" by simp
    next
      fix \<rho> assume "\<rho> \<in> {the (row (?out ! i))..the (row (?out ! j))}"
      then have b: "the (row (?out ! i)) \<le> \<rho>" "\<rho> \<le> the (row (?out ! j))" by simp_all
      from chain_rows_onto[OF c ij jl b] obtain m
        where m: "i \<le> m" "m \<le> j" "the (row (?out ! m)) = \<rho>" by blast
      then have ml: "m < length ?out" using jl by simp
      have "parentKey (?out ! m) = parentKey (?out ! i)"
      proof (rule sorted_between[OF s m(1) m(2) jl])
        show "parentKey (?out ! i) = parentKey (?out ! j)"
          using pij ps[of i] ps[OF jl] ij jl by simp
      qed
      then have "parent (?out ! m) = p" using ps[OF ml] ps[of i] iP by simp
      moreover have "row (?out ! m) = Some \<rho>" using def[OF ml] m(3) by auto
      ultimately have "\<exists>r \<in> set ?out. parent r = p \<and> row r = Some \<rho>"
        using nth_mem[OF ml] by blast
      then show "\<rho> \<in> ?R" by simp
    qed
    then show ?thesis by blast
  qed
qed

theorem cells_distinct_rows_contiguous_witness:
  "generate exGraph 500 exMeasure (Some [exB0, exA0, exA1]) = Inr exResult \<and>
   distinct (map (\<lambda>r. (row r, index r)) (filter (\<lambda>r. parent r = Some ''A'') (records exResult))) \<and>
   (\<exists>lo hi. {\<rho>. \<exists>r \<in> set (records exResult). parent r = Some ''A'' \<and> row r = Some \<rho>} = {lo..hi})"
  using cells_distinct_rows_contiguous[OF ex_generate, of "Some ''A''"] ex_generate by simp

text \<open>
  C5, as amended. The sort compares parents only and keeps the input order among the
  children of one parent. For two orderings of the same records, when
  \<^verbatim>\<open>generate\<close> returns on one it returns on the other, and it leaves the same sequence
  of (parent, row, index) in the two arrays: every parent's children occupy the same
  cells. Which child of a parent is in which of these cells follows the input order, as
  the counterexample shows for two children of parent A. Calling \<^verbatim>\<open>generate\<close> again
  on the array it left gives the same result.
\<close>

theorem layout_order_independent:
  assumes g1: "generate cfg clientWidth measureText (Some xs) = Inr g1"
    and perm: "mset xs = mset ys"
  shows "\<exists>g2. generate cfg clientWidth measureText (Some ys) = Inr g2 \<and>
           map (\<lambda>r. (parent r, row r, index r)) (records g1) =
           map (\<lambda>r. (parent r, row r, index r)) (records g2) \<and>
           generate cfg clientWidth measureText (Some (records g1)) = Inr g1"
proof -
  let ?cmc = "calculatedMaxChildren cfg clientWidth"
  have v: "verifyJson (Some xs) = Inr True" by (rule generate_records(2)[OF g1])
  have v2: "verifyJson (Some ys) = Inr True" by (rule verifyJson_perm[OF v perm])
  have k1: "map parent (sortBy compareParent xs) = map Some (map parentKey (sort_key parentKey xs))"
    using v valid_parent_Some[OF v]
    by (simp add: sortBy_sort_key verifyJson_ok verifyElement_None)
  have k2: "map parent (sortBy compareParent ys) = map Some (map parentKey (sort_key parentKey ys))"
    using v2 valid_parent_Some[OF v2]
    by (simp add: sortBy_sort_key verifyJson_ok verifyElement_None)
  have same: "map parent (sortBy compareParent xs) = map parent (sortBy compareParent ys)"
    unfolding k1 k2 using sort_key_keys_perm[OF perm, of parentKey] by simp
  have "Some ''containsKey'' \<notin> set (map parent (butlast (sortBy compareParent xs)))"
    using g1 generate_returns_iff[of cfg clientWidth measureText xs] by blast
  then have "Some ''containsKey'' \<notin> set (map parent (butlast (sortBy compareParent ys)))"
    using same by (simp add: map_butlast)
  with v2 generate_returns_iff[of cfg clientWidth measureText ys] obtain g2
    where g2: "generate cfg clientWidth measureText (Some ys) = Inr g2" by blast
  have r1: "records g1 = assignCells ?cmc 1 1 None (sortBy compareParent xs)"
    using generate_records(1)[OF g1] by (simp add: layout_def)
  have r2: "records g2 = assignCells ?cmc 1 1 None (sortBy compareParent ys)"
    using generate_records(1)[OF g2] by (simp add: layout_def)
  have "map (\<lambda>r. (parent r, row r, index r)) (records g1) =
        map (\<lambda>r. (parent r, row r, index r)) (records g2)"
    unfolding r1 r2 using same by (rule assignCells_cong)
  with g2 generate_again[OF g1] show ?thesis by blast
qed

theorem layout_order_independent_witness:
  "generate exGraph 500 exMeasure (Some [exB0, exA0, exA1]) = Inr exResult \<and>
   mset [exB0, exA0, exA1] = mset [exA1, exB0, exA0] \<and>
   (\<exists>g2. generate exGraph 500 exMeasure (Some [exA1, exB0, exA0]) = Inr g2 \<and>
         map (\<lambda>r. (parent r, row r, index r)) (records exResult) =
         map (\<lambda>r. (parent r, row r, index r)) (records g2) \<and>
         generate exGraph 500 exMeasure (Some (records exResult)) = Inr exResult)"
proof -
  have h1: "generate exGraph 500 exMeasure (Some [exB0, exA0, exA1]) = Inr exResult"
    by (rule ex_generate)
  have h2: "mset [exB0, exA0, exA1] = mset [exA1, exB0, exA0]" by simp
  from layout_order_independent[OF h1 h2] h1 h2 show ?thesis by blast
qed

theorem layout_order_counterexample:
  "mset [exA0, exA1] = mset [exA1, exA0] \<and>
   layout 2 [exA0, exA1] = [exA0\<lparr>row := Some 1, index := Some 1\<rparr>, exA1\<lparr>row := Some 1, index := Some 2\<rparr>] \<and>
   layout 2 [exA1, exA0] = [exA1\<lparr>row := Some 1, index := Some 1\<rparr>, exA0\<lparr>row := Some 1, index := Some 2\<rparr>] \<and>
   exA0\<lparr>row := Some 1, index := Some 1\<rparr> \<notin> set (layout 2 [exA1, exA0])"
proof -
  have "mset [exA0, exA1] = mset [exA1, exA0]" by simp
  moreover have "layout 2 [exA0, exA1] = [exA0\<lparr>row := Some 1, index := Some 1\<rparr>, exA1\<lparr>row := Some 1, index := Some 2\<rparr>]"
    by code_simp
  moreover have l2: "layout 2 [exA1, exA0] = [exA1\<lparr>row := Some 1, index := Some 1\<rparr>, exA0\<lparr>row := Some 1, index := Some 2\<rparr>]"
    by code_simp
  moreover have "exA0\<lparr>row := Some 1, index := Some 1\<rparr> \<notin> set (layout 2 [exA1, exA0])"
    unfolding l2 by (simp add: exA0_def exA1_def)
  ultimately show ?thesis by blast
qed

text \<open>
  C6. The claim says that a name is cut and marked exactly when it is longer than 25
  characters. The code compares with \<^verbatim>\<open>>=\<close>: a name of exactly 25 characters, of
  which nothing is cut, gets the three dots appended and grows to 28 characters. For
  every other length the code does what the claim says (\<open>abbreviate_longer\<close>,
  \<open>abbreviate_shorter\<close>).
\<close>

theorem abbreviate_at_25:
  "length ''abcdefghijklmnopqrstuvwxy'' = 25 \<and>
   abbreviate ''abcdefghijklmnopqrstuvwxy'' = ''abcdefghijklmnopqrstuvwxy...''"
  by (simp add: abbreviate_def)

text \<open>
  C7. The claim says that \<^verbatim>\<open>showTooltips = false\<close> is honoured. The constructor
  computes \<^verbatim>\<open>showTooltips || true\<close>, which is \<^verbatim>\<open>true\<close> for every argument: with
  \<^verbatim>\<open>false\<close> passed, the configuration says \<^verbatim>\<open>true\<close> and the tooltip is created.
\<close>

theorem showTooltips_false_ignored:
  "showTooltips (RelationshipGraph (Some False) maxChildCount') = True \<and>
   tip (RelationshipGraph (Some False) maxChildCount') = Some ''w''"
  by (simp add: RelationshipGraph_def or_bool_def tip_def)

text \<open>
  C8. The claim says that \<^verbatim>\<open>maxWidth\<close> and \<^verbatim>\<open>maxHeight\<close> are running maxima of
  the extents of the drawn elements. For the blocks the code adds with \<^verbatim>\<open>+=\<close>
  where the labels assign the larger value. On the example (B, A, A, two blocks per
  row, a label 98 pixels wide) the right edges are 122, 146, 122, with maximum 146, and
  the code ends with \<^verbatim>\<open>maxWidth\<close> = 122 + 146 = 268; the label positions and the
  bottom edges are 0, 24, 24, 24, 48, with maximum 48, and the code ends with
  \<^verbatim>\<open>maxHeight\<close> = 24 + 48 = 72. The canvas is \<^verbatim>\<open>maxWidth\<close> + 15 by
  \<^verbatim>\<open>maxHeight\<close> + 15, as the claim says.
\<close>

theorem canvas_not_running_maximum:
  "generate exGraph 500 exMeasure (Some [exB0, exA0, exA1]) = Inr exResult \<and>
   extentsX exGraph (exMeasure (''A   (2)   '' @ ''    '')) (records exResult) = [122, 146, 122] \<and>
   extentsY exGraph 2 [(''A'', 2), (''B'', 1)] 2 (records exResult) = [0, 24, 24, 24, 48] \<and>
   runningMax [122, 146, 122] = 146 \<and> maxWidth exResult = 268 \<and>
   runningMax [0, 24, 24, 24, 48] = 48 \<and> maxHeight exResult = 72 \<and>
   svgWidth exResult = maxWidth exResult + 15 \<and> svgHeight exResult = maxHeight exResult + 15"
  by code_simp

text \<open>
  C9. The rows of the tooltip's table are, in the order of \<^verbatim>\<open>Object.keys\<close>, those of
  the fields whose name is not one of row, index, color, parentColor, parent with
  letter case ignored; every key of the object is considered; a row is the cell of the
  key followed by the cell of the value when \<open>showKeys\<close> is set, and the cell of the
  value alone otherwise.
\<close>

theorem tooltip_hides_internal_fields:
  "html cfg obj =
     map (\<lambda>key. (if showKeys cfg then [key] else []) @ [getProperty obj key])
         (filter (\<lambda>key. \<not> isInternal key) (objectKeys obj)) \<and>
   set (objectKeys obj) = fst ` set obj"
proof
  have "html cfg obj =
      concat (map (\<lambda>element. if \<not> isInternal element
                then [(if showKeys cfg then [element] else []) @ [getProperty obj element]]
                else []) (objectKeys obj))"
    unfolding html_def by (simp only: hidden_iff_internal)
  then show "html cfg obj =
     map (\<lambda>key. (if showKeys cfg then [key] else []) @ [getProperty obj key])
         (filter (\<lambda>key. \<not> isInternal key) (objectKeys obj))"
    by (simp only: concat_map_if)
  show "set (objectKeys obj) = fst ` set obj" by (rule set_objectKeys)
qed

theorem tooltip_hides_internal_fields_witness:
  "html exGraph [(''Name'', ''x''), (''ROW'', ''1''), (''parentColor'', ''2''), (''size'', ''3''),
      (''Parent'', ''A'')] = [[''Name'', ''x''], [''size'', ''3'']] \<and>
   html (exGraph\<lparr>showKeys := False\<rparr>) [(''Name'', ''x''), (''ROW'', ''1''),
      (''parentColor'', ''2''), (''size'', ''3''), (''Parent'', ''A'')] = [[''x''], [''3'']]"
proof -
  let ?obj = "[(''Name'', ''x''), (''ROW'', ''1''), (''parentColor'', ''2''), (''size'', ''3''),
      (''Parent'', ''A'')]"
  have v: "filter (\<lambda>key. \<not> isInternal key) (objectKeys ?obj) = [''Name'', ''size'']"
    by code_simp
  have 1: "map (\<lambda>key. (if showKeys exGraph then [key] else []) @ [getProperty ?obj key])
      [''Name'', ''size''] = [[''Name'', ''x''], [''size'', ''3'']]"
    by code_simp
  have 2: "map (\<lambda>key. (if showKeys (exGraph\<lparr>showKeys := False\<rparr>) then [key] else [])
      @ [getProperty ?obj key]) [''Name'', ''size''] = [[''x''], [''3'']]"
    by code_simp
  from tooltip_hides_internal_fields[of exGraph ?obj]
    tooltip_hides_internal_fields[of "exGraph\<lparr>showKeys := False\<rparr>" ?obj]
  show ?thesis unfolding v 1 2 by blast
qed

text \<open>
  C10. When \<^verbatim>\<open>generate\<close> returns, the caller's array holds the parents in ascending
  order; apart from the fields \<^verbatim>\<open>row\<close> and \<^verbatim>\<open>index\<close> it is the stable sort by
  parent of the records it held before; and every record has a row and an index. In
  the example the array B, A, A is left in the order A, A, B.
\<close>

theorem generate_sorts_array:
  assumes gen: "generate cfg clientWidth measureText (Some js) = Inr g"
  shows "(\<exists>ps. map parent (records g) = map Some ps \<and> sorted ps) \<and>
         map unplaced (records g) = map unplaced (sort_key parentKey js) \<and>
         mset (map unplaced (records g)) = mset (map unplaced js) \<and>
         list_all (\<lambda>r. row r \<noteq> None \<and> index r \<noteq> None) (records g)"
proof -
  let ?cmc = "calculatedMaxChildren cfg clientWidth"
  have v: "verifyJson (Some js) = Inr True" by (rule generate_records(2)[OF gen])
  have r: "records g = assignCells ?cmc 1 1 None (sortBy compareParent js)"
    using generate_records(1)[OF gen] by (simp add: layout_def)
  have s: "sortBy compareParent js = sort_key parentKey js"
    using v by (intro sortBy_sort_key) (auto simp: verifyJson_ok verifyElement_None)
  have 1: "\<exists>ps. map parent (records g) = map Some ps \<and> sorted ps"
    using generate_sorted[OF gen] by blast
  have 2: "map unplaced (records g) = map unplaced (sort_key parentKey js)"
    unfolding r unplaced_assignCells s ..
  have 3: "mset (map unplaced (records g)) = mset (map unplaced js)"
    unfolding 2 by simp
  have 4: "list_all (\<lambda>r. row r \<noteq> None \<and> index r \<noteq> None) (records g)"
    unfolding list_all_iff using generate_chain(2)[OF gen] by blast
  from 1 2 3 4 show ?thesis by blast
qed

theorem generate_sorts_array_witness:
  "generate exGraph 500 exMeasure (Some [exB0, exA0, exA1]) = Inr exResult \<and>
   (\<exists>ps. map parent (records exResult) = map Some ps \<and> sorted ps) \<and>
   map unplaced (records exResult) = map unplaced (sort_key parentKey [exB0, exA0, exA1]) \<and>
   mset (map unplaced (records exResult)) = mset (map unplaced [exB0, exA0, exA1]) \<and>
   list_all (\<lambda>r. row r \<noteq> None \<and> index r \<noteq> None) (records exResult) \<and>
   map parent (records exResult) \<noteq> map parent [exB0, exA0, exA1]"
proof -
  have "map parent (records exResult) \<noteq> map parent [exB0, exA0, exA1]"
    by (simp add: exResult_def exA0_def exB0_def)
  with generate_sorts_array[OF ex_generate] ex_generate show ?thesis by blast
qed

end
